theory Spec2Isabelle
  imports Main "HOL-Library.Word"
begin

unbundle bit_operations_syntax

section \<open>Bytes and big integers\<close>

type_synonym byte = "8 word"

text \<open>
  \<^verbatim>\<open>(*big.Int).Bytes()\<close> of Go's math/big: the absolute value as a big-endian byte slice
  without leading zero bytes; the slice of zero is empty.
\<close>

function be_bytes :: "nat \<Rightarrow> byte list" where
  "be_bytes n = (if n = 0 then [] else be_bytes (n div 256) @ [of_nat (n mod 256)])"
  by pat_completeness auto
termination
  by (relation "measure id") auto

declare be_bytes.simps [simp del]

definition Bytes :: "int \<Rightarrow> byte list" where
  "Bytes v = be_bytes (nat \<bar>v\<bar>)"

text \<open>
  \<^verbatim>\<open>(*big.Int).SetBytes(buf)\<close>: \<open>buf\<close> read as a big-endian unsigned integer.
\<close>

definition SetBytes :: "byte list \<Rightarrow> int" where
  "SetBytes buf = foldl (\<lambda>acc b. acc * 256 + uint b) 0 buf"

section \<open>Private key encoding\<close>

definition SM2PrivateKeyLength :: nat where
  "SM2PrivateKeyLength = 32"

record PublicKey =
  X :: int
  Y :: int

record PrivateKey =
  PublicKey :: PublicKey
  D :: int

text \<open>
  \<^verbatim>\<open>for i := 0; i < int(size)-len(src); i++ { dst = append(dst, 0) }\<close>:
  the bound is a signed difference, so a source longer than \<open>size\<close> gets no padding.
\<close>

function paddedAppend_loop :: "int \<Rightarrow> int \<Rightarrow> byte list \<Rightarrow> byte list" where
  "paddedAppend_loop i bound dst =
     (if i < bound then paddedAppend_loop (i + 1) bound (dst @ [0]) else dst)"
  by pat_completeness auto
termination
  by (relation "measure (\<lambda>(i, bound, dst). nat (bound - i))") auto

declare paddedAppend_loop.simps [simp del]

definition paddedAppend :: "nat \<Rightarrow> byte list \<Rightarrow> byte list \<Rightarrow> byte list" where
  "paddedAppend sz dst src =
     paddedAppend_loop 0 (int sz - int (length src)) dst @ src"

definition SerializePrivateKey :: "PrivateKey \<Rightarrow> byte list" where
  "SerializePrivateKey p = paddedAppend SM2PrivateKeyLength [] (Bytes (D p))"

section \<open>Signature encoding\<close>

text \<open>
  Go's \<^verbatim>\<open>copy(b[off:], src)\<close> for \<open>off \<le> len(b)\<close>: overwrites as many bytes as fit and
  returns their number.
\<close>

definition copy_into :: "byte list \<Rightarrow> nat \<Rightarrow> byte list \<Rightarrow> byte list \<times> nat" where
  "copy_into b off src =
     (let n = min (length b - off) (length src)
      in (take off b @ take n src @ drop (off + n) b, n))"

definition canonicalizeInt :: "int \<Rightarrow> byte list" where
  "canonicalizeInt val =
     (let b = Bytes val;
          b = (if length b = 0 then [0x00] else b)
      in if (b ! 0) AND 0x80 \<noteq> 0
         then (let paddedBytes = replicate (length b + 1) 0
               in fst (copy_into paddedBytes 1 b))
         else b)"

text \<open>
  The buffer is allocated zeroed and filled by index; every index below is within the
  \<open>6 + len(rb) + len(sb)\<close> bytes allocated, so no store can panic. \<^verbatim>\<open>byte(n)\<close>
  keeps the low eight bits of \<open>n\<close>.
\<close>

definition SerializeSignature :: "int \<Rightarrow> int \<Rightarrow> byte list" where
  "SerializeSignature r s =
     (let rb = canonicalizeInt r;
          sb = canonicalizeInt s;
          len = 6 + length rb + length sb;
          b = replicate len (0 :: byte);
          b = b[0 := 0x30];
          b = b[1 := of_nat (len - 2)];
          b = b[2 := 0x02];
          b = b[3 := of_nat (length rb)];
          (b, n) = copy_into b 4 rb;
          offset = n + 4;
          b = b[offset := 0x02];
          b = b[offset + 1 := of_nat (length sb)];
          (b, _) = copy_into b (offset + 2) sb
      in b)"

section \<open>The imported packages\<close>

datatype fault = Panic string

datatype error = MalformedSignature | LibraryError string

text \<open>One call of \<^verbatim>\<open>rand.Read\<close>: the source fails, or delivers bytes.\<close>

datatype draw = RandErr string | RandBytes "byte list"

text \<open>
  The functions of gmsm/sm2, crypto/elliptic and btcec that the package calls. Their code
  is not part of the package, so the model takes them as parameters; each may panic
  (\<open>Inl\<close>), and those that return a Go \<^verbatim>\<open>error\<close> return it as \<open>Inr (Inl err)\<close>.
  A \<^verbatim>\<open>*sm2.PublicKey\<close> that may be nil is a \<open>PublicKey option\<close>. The signer and the
  cipher read the process-wide random source, here the draws still to come. Every call
  in the package passes the curve \<^verbatim>\<open>sm2.P256Sm2()\<close>, so the curve is not an argument.
\<close>

record extern =
  ScalarBaseMult :: "byte list \<Rightarrow> fault + int \<times> int"
  Compress :: "PublicKey \<Rightarrow> fault + byte list"
  Decompress :: "byte list \<Rightarrow> fault + PublicKey option"
  Sm2Sign :: "PrivateKey \<Rightarrow> byte list \<Rightarrow> byte list \<Rightarrow> draw list \<Rightarrow> fault + (error + int \<times> int)"
  Sm2Verify :: "PublicKey option \<Rightarrow> byte list \<Rightarrow> byte list \<Rightarrow> int \<Rightarrow> int \<Rightarrow> fault + bool"
  Encrypt :: "PublicKey option \<Rightarrow> byte list \<Rightarrow> draw list \<Rightarrow> fault + (error + byte list)"
  Decrypt :: "PrivateKey \<Rightarrow> byte list \<Rightarrow> fault + (error + byte list)"
  ParseDERSignature :: "byte list \<Rightarrow> fault + (error + int \<times> int)"

text \<open>
  Modelled from the spec: the order \<open>n\<close> of the SM2 curve, which the code reads as
  \<^verbatim>\<open>sm2.P256Sm2().Params().N\<close>; the declaration is in the imported gmsm package. The
  value is the one of the named curve of GB/T 32918.
\<close>

definition P256Sm2_N :: int where
  "P256Sm2_N = 0xFFFFFFFEFFFFFFFFFFFFFFFFFFFFFFFF7203DF6B21C6052B53BBF40939D54123"

text \<open>\<^verbatim>\<open>bytes.Compare\<close>: lexicographic order of byte slices, as \<open>-1\<close>, \<open>0\<close> or \<open>1\<close>.\<close>

fun bytes_Compare :: "byte list \<Rightarrow> byte list \<Rightarrow> int" where
  "bytes_Compare [] [] = 0"
| "bytes_Compare [] (y # ys) = - 1"
| "bytes_Compare (x # xs) [] = 1"
| "bytes_Compare (x # xs) (y # ys) =
     (if x < y then - 1 else if y < x then 1 else bytes_Compare xs ys)"

text \<open>
  \<^verbatim>\<open>rand.Read(b)\<close> fills the whole buffer or fails; on failure the buffer is left as
  it was and the error is returned. A draw of bytes stands for a read that succeeds, so
  it has the length of the buffer; a draw of any other length cannot be what this read
  delivers and counts as a failed read.
\<close>

definition rand_Read :: "byte list \<Rightarrow> draw \<Rightarrow> byte list \<times> string option" where
  "rand_Read b d =
     (case d of
        RandErr err \<Rightarrow> (b, Some err)
      | RandBytes bs \<Rightarrow>
          if length bs = length b then (fst (copy_into b 0 bs), None)
          else (b, Some ''unexpected EOF''))"

section \<open>Keys\<close>

definition DefaultUID :: "byte list" where
  "DefaultUID = [0x31, 0x32, 0x33, 0x34, 0x35, 0x36, 0x37, 0x38,
                 0x31, 0x32, 0x33, 0x34, 0x35, 0x36, 0x37, 0x38]"

definition getRandBytes :: "nat \<Rightarrow> draw \<Rightarrow> fault + byte list" where
  "getRandBytes numBytes d =
     (let b = replicate numBytes (0 :: byte);
          (b, err) = rand_Read b d
      in case err of
           Some e \<Rightarrow> Inl (Panic (''Panic on a Crisis'' @ e))
         | None \<Rightarrow> Inr b)"

definition PrivKeyFromBytes :: "extern \<Rightarrow> byte list \<Rightarrow> fault + PrivateKey \<times> PublicKey" where
  "PrivKeyFromBytes L pk =
     (case ScalarBaseMult L pk of
        Inl f \<Rightarrow> Inl f
      | Inr (x, y) \<Rightarrow>
          (let priv = \<lparr>PublicKey = \<lparr>X = x, Y = y\<rparr>, D = SetBytes pk\<rparr>
           in Inr (priv, PublicKey priv)))"

definition parsePubKey :: "extern \<Rightarrow> byte list \<Rightarrow> fault + PublicKey option" where
  "parsePubKey L pubKeyStr = Decompress L pubKeyStr"

definition SerializePublicKey :: "extern \<Rightarrow> PublicKey \<Rightarrow> fault + byte list" where
  "SerializePublicKey L p = Compress L p"

definition DeserializeSignature :: "extern \<Rightarrow> byte list \<Rightarrow> fault + (error + int \<times> int)" where
  "DeserializeSignature L sigStr =
     (case ParseDERSignature L sigStr of
        Inl f \<Rightarrow> Inl f
      | Inr (Inl err) \<Rightarrow> Inr (Inl err)
      | Inr (Inr (r, s)) \<Rightarrow> Inr (Inr (r, s)))"

text \<open>
  The loop of \<^verbatim>\<open>GenerateKey\<close> draws until a key compares below the order. The draws to
  come are the list; \<open>None\<close> says that the loop asks for a draw beyond them.
\<close>

fun GenerateKey_loop :: "byte list \<Rightarrow> draw list \<Rightarrow> (fault + byte list) option" where
  "GenerateKey_loop privKeyBytes [] = None"
| "GenerateKey_loop privKeyBytes (d # ds) =
     (case getRandBytes 32 d of
        Inl f \<Rightarrow> Some (Inl f)
      | Inr key \<Rightarrow>
          if bytes_Compare key (Bytes P256Sm2_N) \<ge> 0
          then GenerateKey_loop privKeyBytes ds
          else Some (Inr (fst (copy_into privKeyBytes 0 key))))"

definition GenerateKey :: "extern \<Rightarrow> draw list \<Rightarrow> (fault + byte list \<times> byte list) option" where
  "GenerateKey L ds =
     (let privKeyBytes = replicate SM2PrivateKeyLength (0 :: byte)
      in case GenerateKey_loop privKeyBytes ds of
           None \<Rightarrow> None
         | Some (Inl f) \<Rightarrow> Some (Inl f)
         | Some (Inr privKeyBytes) \<Rightarrow>
             (case PrivKeyFromBytes L privKeyBytes of
                Inl f \<Rightarrow> Some (Inl f)
              | Inr (priv, pub) \<Rightarrow>
                  (let privBytes = SerializePrivateKey priv
                   in case SerializePublicKey L pub of
                        Inl f \<Rightarrow> Some (Inl f)
                      | Inr pubBytes \<Rightarrow> Some (Inr (privBytes, pubBytes)))))"

section \<open>Signing, verification, encryption\<close>

text \<open>A nil \<^verbatim>\<open>uid\<close> is \<open>None\<close>; an empty slice that is not nil is \<open>Some []\<close>.\<close>

definition SM2Sign ::
  "extern \<Rightarrow> byte list \<Rightarrow> byte list \<Rightarrow> byte list option \<Rightarrow> draw list \<Rightarrow> fault + (error + byte list)" where
  "SM2Sign L msg privateKey uid rnd =
     (let uid = (case uid of None \<Rightarrow> DefaultUID | Some u \<Rightarrow> u)
      in case PrivKeyFromBytes L privateKey of
           Inl f \<Rightarrow> Inl f
         | Inr (priv, _) \<Rightarrow>
             (case Sm2Sign L priv msg uid rnd of
                Inl f \<Rightarrow> Inl f
              | Inr (Inl err) \<Rightarrow> Inr (Inl err)
              | Inr (Inr (r, s)) \<Rightarrow> Inr (Inr (SerializeSignature r s))))"

definition SM2Verify ::
  "extern \<Rightarrow> byte list \<Rightarrow> byte list \<Rightarrow> byte list option \<Rightarrow> byte list \<Rightarrow> fault + bool" where
  "SM2Verify L publicKey msg uid sig =
     (let uid = (case uid of None \<Rightarrow> DefaultUID | Some u \<Rightarrow> u)
      in case parsePubKey L publicKey of
           Inl f \<Rightarrow> Inl f
         | Inr pub \<Rightarrow>
             (case DeserializeSignature L sig of
                Inl f \<Rightarrow> Inl f
              | Inr (Inl err) \<Rightarrow> Inr False
              | Inr (Inr (r, s)) \<Rightarrow> Sm2Verify L pub msg uid r s))"

definition SM2Encrypt ::
  "extern \<Rightarrow> byte list \<Rightarrow> byte list \<Rightarrow> draw list \<Rightarrow> fault + (error + byte list)" where
  "SM2Encrypt L publicKey data rnd =
     (case parsePubKey L publicKey of
        Inl f \<Rightarrow> Inl f
      | Inr pub \<Rightarrow> Encrypt L pub data rnd)"

definition SM2Decrypt :: "extern \<Rightarrow> byte list \<Rightarrow> byte list \<Rightarrow> fault + (error + byte list)" where
  "SM2Decrypt L privateKey data =
     (case PrivKeyFromBytes L privateKey of
        Inl f \<Rightarrow> Inl f
      | Inr (priv, _) \<Rightarrow> Decrypt L priv data)"

definition PubKeyFromPrivate :: "extern \<Rightarrow> byte list \<Rightarrow> fault + byte list" where
  "PubKeyFromPrivate L privKey =
     (case PrivKeyFromBytes L privKey of
        Inl f \<Rightarrow> Inl f
      | Inr (_, pub) \<Rightarrow> SerializePublicKey L pub)"

section \<open>The signature decoder of the specification\<close>

text \<open>
  Modelled from the spec: one integer field of the specification's signature structure
  (the parser of the imported btcec package is not part of the package's code): the tag
  \<open>0x02\<close>, a length byte and as many content bytes, read as a big-endian unsigned
  integer; leading zero bytes are tolerated. The bytes after the field are returned
  with the integer.
\<close>

fun parse_integer :: "byte list \<Rightarrow> (int \<times> byte list) option" where
  "parse_integer (t # l # rest) =
     (if t = 0x02 \<and> unat l \<le> length rest
      then Some (SetBytes (take (unat l) rest), drop (unat l) rest)
      else None)"
| "parse_integer _ = None"

text \<open>
  Modelled from the spec: \<^verbatim>\<open>btcec.ParseDERSignature\<close>, which \<^verbatim>\<open>DeserializeSignature\<close>
  calls, is code of an imported package. The specification's \<open>decodeSignature\<close> parses
  the structure \<open>0x30 LEN 0x02 LEN(r) r 0x02 LEN(s) s\<close> and fails with
  \<open>MalformedSignature\<close> on a wrong tag, a length mismatch or trailing bytes, while it
  tolerates padding that is not canonical. It states no range check on the integers.
\<close>

fun decodeSignature :: "byte list \<Rightarrow> error + int \<times> int" where
  "decodeSignature (t # l # body) =
     (if t \<noteq> 0x30 then Inl MalformedSignature
      else if unat l \<noteq> length body then Inl MalformedSignature
      else case parse_integer body of
             None \<Rightarrow> Inl MalformedSignature
           | Some (r, rest) \<Rightarrow>
               (case parse_integer rest of
                  None \<Rightarrow> Inl MalformedSignature
                | Some (s, rest') \<Rightarrow>
                    if rest' \<noteq> [] then Inl MalformedSignature else Inr (r, s)))"
| "decodeSignature _ = Inl MalformedSignature"

section \<open>An instance of the imported packages\<close>

text \<open>
  The theorems below hold for every behaviour of the imported functions. To run the
  package on concrete inputs, this instance supplies the specification's decoder and,
  in place of the curve, a signer over the integers modulo \<open>n\<close>: the public key of
  \<open>d\<close> is \<open>d mod n\<close>, \<open>r\<close> binds key, identifier and message, and \<open>s\<close> comes from
  the drawn bytes. Like an SM2 library that takes an empty identifier for the default
  one, its signer and verifier read an empty identifier as \<^const>\<open>DefaultUID\<close>. It stands
  in for the imported package only where a closed statement needs one.
\<close>

definition sample_uid :: "byte list \<Rightarrow> byte list" where
  "sample_uid uid = (if uid = [] then DefaultUID else uid)"

definition sample_digest :: "int \<Rightarrow> byte list \<Rightarrow> byte list \<Rightarrow> int" where
  "sample_digest x uid msg = 1 + (x + SetBytes (sample_uid uid @ msg)) mod (P256Sm2_N - 1)"

definition sample_extern :: extern where
  "sample_extern =
     \<lparr>ScalarBaseMult = (\<lambda>k. Inr (SetBytes k mod P256Sm2_N, 0)),
      Compress = (\<lambda>P. Inr (0x02 # paddedAppend 32 [] (Bytes (X P)))),
      Decompress = (\<lambda>b. case b of
                            [] \<Rightarrow> Inl (Panic ''slice bounds out of range'')
                          | t # xs \<Rightarrow> Inr (Some \<lparr>X = SetBytes xs, Y = 0\<rparr>)),
      Sm2Sign = (\<lambda>priv msg uid rnd. case rnd of
                   [] \<Rightarrow> Inr (Inl (LibraryError ''no entropy''))
                 | RandErr e # _ \<Rightarrow> Inr (Inl (LibraryError e))
                 | RandBytes bs # _ \<Rightarrow>
                     Inr (Inr (sample_digest (X (PublicKey priv)) uid msg,
                               1 + SetBytes bs mod (P256Sm2_N - 1)))),
      Sm2Verify = (\<lambda>pub msg uid r s. case pub of
                     None \<Rightarrow> Inl (Panic ''nil pointer dereference'')
                   | Some P \<Rightarrow>
                       Inr (r = sample_digest (X P) uid msg \<and> 1 \<le> s \<and> s < P256Sm2_N)),
      Encrypt = (\<lambda>pub data rnd. case rnd of
                   RandErr e # _ \<Rightarrow> Inr (Inl (LibraryError e))
                 | _ \<Rightarrow> Inr (Inr data)),
      Decrypt = (\<lambda>priv data. Inr (Inr data)),
      ParseDERSignature = (\<lambda>b. Inr (decodeSignature b))\<rparr>"

section \<open>The specification's padding rule\<close>

text \<open>
  Following the specification's words, for comparison with \<^const>\<open>canonicalizeInt\<close>: a
  leading zero byte is prepended exactly when the high bit of the first byte would
  otherwise be set.
\<close>

definition sign_padded :: "byte list \<Rightarrow> byte list" where
  "sign_padded m = (if bit (hd m) 7 then 0 # m else m)"

text \<open>The draws on which the loop of \<^verbatim>\<open>GenerateKey\<close> takes its \<^verbatim>\<open>continue\<close>.\<close>

definition rejected :: "draw \<Rightarrow> bool" where
  "rejected d =
     (case getRandBytes 32 d of
        Inl f \<Rightarrow> False
      | Inr key \<Rightarrow> bytes_Compare key (Bytes P256Sm2_N) \<ge> 0)"

section \<open>Facts about bytes and big integers\<close>

lemma paddedAppend_loop_eq:
  "paddedAppend_loop i bound dst = dst @ replicate (nat (bound - i)) 0"
proof (induction i bound dst rule: paddedAppend_loop.induct)
  case (1 i bound dst)
  show ?case
  proof (cases "i < bound")
    case True
    then have "nat (bound - i) = Suc (nat (bound - (i + 1)))" by simp
    with True 1 show ?thesis
      by (subst paddedAppend_loop.simps) (simp add: replicate_append_same)
  next
    case False
    then show ?thesis by (subst paddedAppend_loop.simps) simp
  qed
qed

lemma SetBytes_snoc: "SetBytes (xs @ [b]) = SetBytes xs * 256 + uint b"
  by (simp add: SetBytes_def)

lemma uint_byte_of_nat: "uint (of_nat (n mod 256) :: byte) = int (n mod 256)"
  by (simp add: uint_nat unat_of_nat)

lemma byte_of_nat_nonzero: "0 < n \<Longrightarrow> n < 256 \<Longrightarrow> (of_nat n :: byte) \<noteq> 0"
proof
  assume n: "0 < n" "n < 256" and z: "(of_nat n :: byte) = 0"
  have "unat (of_nat n :: byte) = n" using n by (simp add: unat_of_nat)
  with z n show False by simp
qed

lemma high_bit_iff: "((b :: byte) AND 0x80 \<noteq> 0) = (0x80 \<le> b)"
proof -
  have "(b AND 2 ^ 7 = 0) = (\<not> bit b 7)"
    by (rule and_exp_eq_0_iff_not_bit)
  moreover have "bit b 7 = bit (unat b) 7"
    by (simp add: bit_unsigned_iff)
  moreover have "bit (unat b) 7 = odd (unat b div 2 ^ 7)"
    by (rule bit_iff_odd)
  moreover have "unat b < 256" using unsigned_less [of b, where ?'a = nat] by simp
  then have "odd (unat b div 2 ^ 7) = (128 \<le> unat b)"
  proof (cases "128 \<le> unat b")
    case True
    moreover assume "unat b < 256"
    ultimately have "unat b div 128 = 1" by simp
    with True show ?thesis by simp
  next
    case False
    then have "unat b div 128 = 0" by simp
    with False show ?thesis by simp
  qed
  moreover have "(0x80 \<le> b) = (128 \<le> unat b)" by (simp add: word_le_nat_alt)
  ultimately show ?thesis by simp
qed

lemma be_bytes_nonzero: "0 < n \<Longrightarrow> be_bytes n \<noteq> [] \<and> hd (be_bytes n) \<noteq> 0"
proof (induction n rule: be_bytes.induct)
  case (1 n)
  show ?case
  proof (cases "n div 256 = 0")
    case True
    with 1(2) have "be_bytes n = [of_nat n]"
      by (subst be_bytes.simps, subst be_bytes.simps) simp
    moreover have "(of_nat n :: byte) \<noteq> 0" using True 1(2)
      by (intro byte_of_nat_nonzero) simp_all
    ultimately show ?thesis by simp
  next
    case False
    with 1 have "be_bytes (n div 256) \<noteq> [] \<and> hd (be_bytes (n div 256)) \<noteq> 0" by simp
    with 1(2) show ?thesis by (simp add: be_bytes.simps [of n])
  qed
qed

lemma length_be_bytes: "n < 256 ^ k \<Longrightarrow> length (be_bytes n) \<le> k"
proof (induction n arbitrary: k rule: be_bytes.induct)
  case (1 n)
  show ?case
  proof (cases "n = 0")
    case True
    then show ?thesis by (subst be_bytes.simps) simp
  next
    case False
    with 1(2) obtain k' where k: "k = Suc k'" by (cases k) auto
    with 1(2) have "n div 256 < 256 ^ k'"
      by (simp add: less_mult_imp_div_less mult.commute)
    with 1(1) False have "length (be_bytes (n div 256)) \<le> k'" by simp
    with False k show ?thesis by (subst be_bytes.simps) simp
  qed
qed

lemma SetBytes_be_bytes: "SetBytes (be_bytes n) = int n"
proof (induction n rule: be_bytes.induct)
  case (1 n)
  show ?case
  proof (cases "n = 0")
    case True
    then show ?thesis by (subst be_bytes.simps) (simp add: SetBytes_def)
  next
    case False
    with 1 show ?thesis
      by (subst be_bytes.simps) (simp add: SetBytes_snoc uint_byte_of_nat zdiv_int zmod_int)
  qed
qed

lemma SetBytes_Bytes: "0 \<le> v \<Longrightarrow> SetBytes (Bytes v) = v"
  by (simp add: Bytes_def SetBytes_be_bytes)

lemma SetBytes_zeros: "SetBytes (replicate k 0 @ xs) = SetBytes xs"
proof -
  have "foldl (\<lambda>acc b. acc * 256 + uint b) 0 (replicate k (0 :: byte)) = (0 :: int)"
    by (induction k) simp_all
  then show ?thesis by (simp add: SetBytes_def)
qed

lemma P256Sm2_N_bound: "P256Sm2_N < 256 ^ 32"
  by (simp add: P256Sm2_N_def)

lemma nat_abs_below: "0 \<le> v \<Longrightarrow> (v::int) < 256 ^ 32 \<Longrightarrow> nat \<bar>v\<bar> < 256 ^ 32"
proof -
  assume v: "0 \<le> v" "v < 256 ^ 32"
  have "int (nat \<bar>v\<bar>) < int (256 ^ 32)"
    using v by (simp del: of_nat_power of_nat_numeral)
  then show ?thesis by (rule iffD1 [OF of_nat_less_iff])
qed

lemma length_Bytes_below_N: "0 \<le> v \<Longrightarrow> v < P256Sm2_N \<Longrightarrow> length (Bytes v) \<le> 32"
proof -
  assume v: "0 \<le> v" "v < P256Sm2_N"
  from v(2) P256Sm2_N_bound have "v < 256 ^ 32" by (rule less_trans)
  with v(1) have "nat \<bar>v\<bar> < 256 ^ 32" by (rule nat_abs_below)
  then show ?thesis unfolding Bytes_def by (rule length_be_bytes)
qed

lemma paddedAppend_eq:
  "paddedAppend sz dst src = dst @ replicate (sz - length src) 0 @ src"
  by (simp add: paddedAppend_def paddedAppend_loop_eq nat_diff_distrib')

lemma copy_into_pad: "fst (copy_into (0 # replicate (length b) 0) (Suc 0) b) = 0 # b"
  by (simp add: copy_into_def)

lemma canonicalizeInt_eq:
  "canonicalizeInt v =
     (let b = (if v = 0 then [0] else Bytes v) in if 0x80 \<le> hd b then 0 # b else b)"
proof (cases "v = 0")
  case True
  then show ?thesis
    by (simp add: canonicalizeInt_def Bytes_def be_bytes.simps [of 0])
next
  case False
  then have "0 < nat \<bar>v\<bar>" by simp
  then have ne: "Bytes v \<noteq> []" unfolding Bytes_def using be_bytes_nonzero by blast
  then have "Bytes v ! 0 = hd (Bytes v)" by (simp add: hd_conv_nth)
  with False ne show ?thesis
    by (simp add: canonicalizeInt_def Let_def copy_into_pad high_bit_iff)
qed

lemma copy_into_append:
  "length pre = off \<Longrightarrow> copy_into (pre @ replicate (length src) 0 @ rest) off src
     = (pre @ src @ rest, length src)"
  by (simp add: copy_into_def)

lemma replicate_frame:
  "replicate (6 + m + k) (0 :: byte)
     = [0, 0, 0, 0] @ replicate m 0 @ [0, 0] @ replicate k 0"
proof -
  have "replicate (6 + m + k) (0 :: byte)
          = replicate 4 0 @ replicate m 0 @ replicate 2 0 @ replicate k 0"
    unfolding replicate_add [symmetric] by (rule arg_cong2 [where f = replicate]) simp_all
  then show ?thesis by (simp add: eval_nat_numeral)
qed

lemma header_update:
  "([z0, z1, z2, z3] @ zs)[0 := a, 1 := b, 2 := c, 3 := d] = [a, b, c, d] @ zs"
  by (simp add: eval_nat_numeral)

lemma second_update:
  "length pre = off \<Longrightarrow> (pre @ [z0, z1] @ zs)[off := a, off + 1 := b] = pre @ [a, b] @ zs"
  by (simp add: list_update_append)

lemma SerializeSignature_layout:
  "SerializeSignature r s =
     [0x30, of_nat (4 + length (canonicalizeInt r) + length (canonicalizeInt s)),
      0x02, of_nat (length (canonicalizeInt r))] @ canonicalizeInt r
     @ [0x02, of_nat (length (canonicalizeInt s))] @ canonicalizeInt s"
proof -
  define rb where "rb = canonicalizeInt r"
  define sb where "sb = canonicalizeInt s"
  define hdr :: "byte list"
    where "hdr = [0x30, of_nat (6 + length rb + length sb - 2), 0x02, of_nat (length rb)]"
  define b4 where "b4 = hdr @ replicate (length rb) 0 @ [0, 0] @ replicate (length sb) 0"
  have len_hdr: "length hdr = 4" by (simp add: hdr_def)
  have s1: "(replicate (6 + length rb + length sb) (0 :: byte))
              [0 := 0x30, 1 := of_nat (6 + length rb + length sb - 2), 2 := 0x02,
               3 := of_nat (length rb)] = b4"
    unfolding replicate_frame header_update b4_def hdr_def ..
  have s2: "copy_into b4 4 rb = (hdr @ rb @ [0, 0] @ replicate (length sb) 0, length rb)"
    unfolding b4_def using len_hdr by (rule copy_into_append)
  have s3: "(hdr @ rb @ [0, 0] @ replicate (length sb) 0)
              [length rb + 4 := 0x02, length rb + 4 + 1 := of_nat (length sb)]
            = (hdr @ rb) @ [0x02, of_nat (length sb)] @ replicate (length sb) 0"
    using second_update [of "hdr @ rb" "length rb + 4"] len_hdr by simp
  have s4: "copy_into ((hdr @ rb @ [0x02, of_nat (length sb)]) @ replicate (length sb) 0 @ [])
              (length rb + 4 + 2) sb
            = ((hdr @ rb @ [0x02, of_nat (length sb)]) @ sb @ [], length sb)"
    by (rule copy_into_append) (simp add: len_hdr)
  have "SerializeSignature r s = hdr @ rb @ [0x02, of_nat (length sb)] @ sb"
    unfolding SerializeSignature_def Let_def rb_def [symmetric] sb_def [symmetric] s1 s2
    using s3 s4 by simp
  then show ?thesis by (simp add: hdr_def rb_def sb_def)
qed

section \<open>Private keys: fixed width and round trip\<close>

text \<open>
  Claim C4. For a private key scalar \<open>d\<close> with \<open>1 \<le> d < n\<close>, \<^const>\<open>SerializePrivateKey\<close>
  returns 32 bytes, the big-endian bytes of \<open>d\<close> behind as many zero bytes as are
  needed; reading that buffer back as a big-endian integer gives \<open>d\<close>, and so does
  \<^const>\<open>PrivKeyFromBytes\<close> unless the curve multiplication it starts with panics.
\<close>

theorem SerializePrivateKey_roundtrip:
  assumes "1 \<le> D p" and "D p < P256Sm2_N"
  shows "length (SerializePrivateKey p) = 32
    \<and> SerializePrivateKey p = replicate (32 - length (Bytes (D p))) 0 @ Bytes (D p)
    \<and> SetBytes (SerializePrivateKey p) = D p
    \<and> (case PrivKeyFromBytes L (SerializePrivateKey p) of
          Inl f \<Rightarrow> ScalarBaseMult L (SerializePrivateKey p) = Inl f
        | Inr (priv, pub) \<Rightarrow> D priv = D p)"
proof -
  have len: "length (Bytes (D p)) \<le> 32"
    using assms by (intro length_Bytes_below_N) simp_all
  have eq: "SerializePrivateKey p = replicate (32 - length (Bytes (D p))) 0 @ Bytes (D p)"
    by (simp add: SerializePrivateKey_def SM2PrivateKeyLength_def paddedAppend_eq)
  have val: "SetBytes (SerializePrivateKey p) = D p"
    using assms by (simp add: eq SetBytes_zeros SetBytes_Bytes)
  have "case PrivKeyFromBytes L (SerializePrivateKey p) of
          Inl f \<Rightarrow> ScalarBaseMult L (SerializePrivateKey p) = Inl f
        | Inr (priv, pub) \<Rightarrow> D priv = D p"
    using val by (simp add: PrivKeyFromBytes_def split: sum.splits prod.splits)
  with len eq val show ?thesis by simp
qed

theorem SerializePrivateKey_roundtrip_witness:
  "(1 :: int) \<le> 258 \<and> (258 :: int) < P256Sm2_N
    \<and> SerializePrivateKey \<lparr>PublicKey = \<lparr>X = 0, Y = 0\<rparr>, D = 258\<rparr> = replicate 30 0 @ [1, 2]
    \<and> SetBytes (SerializePrivateKey \<lparr>PublicKey = \<lparr>X = 0, Y = 0\<rparr>, D = 258\<rparr>) = 258"
proof -
  let ?p = "\<lparr>PublicKey = \<lparr>X = 0, Y = 0\<rparr>, D = 258\<rparr>"
  have h1: "1 \<le> D ?p" by simp
  have h2: "D ?p < P256Sm2_N" by (simp add: P256Sm2_N_def)
  note t = SerializePrivateKey_roundtrip [OF h1 h2, of sample_extern]
  have b: "Bytes 258 = [1, 2]"
    by (simp add: Bytes_def be_bytes.simps)
  from t have "SerializePrivateKey ?p = replicate (32 - length (Bytes (D ?p))) 0 @ Bytes (D ?p)"
    by (elim conjE)
  then have e: "SerializePrivateKey ?p = replicate 30 0 @ [1, 2]" by (simp add: b)
  from t have v: "SetBytes (SerializePrivateKey ?p) = D ?p" by (elim conjE)
  have c1: "(1 :: int) \<le> 258" by simp
  have c2: "(258 :: int) < P256Sm2_N" using h2 by simp
  have c4: "SetBytes (SerializePrivateKey ?p) = 258" using v by simp
  from c1 c2 e c4 show ?thesis by (intro conjI)
qed

lemma bit7_iff: "bit (b :: byte) 7 = (0x80 \<le> b)"
  using and_exp_eq_0_iff_not_bit [of b 7] high_bit_iff [of b] by simp

lemma canonicalizeInt_sign_padded: "v \<noteq> 0 \<Longrightarrow> canonicalizeInt v = sign_padded (Bytes v)"
  by (simp add: canonicalizeInt_eq sign_padded_def bit7_iff)

lemma Bytes_minimal: "v \<noteq> 0 \<Longrightarrow> Bytes v \<noteq> [] \<and> hd (Bytes v) \<noteq> 0"
  unfolding Bytes_def by (rule be_bytes_nonzero) simp

lemma length_sign_padded: "length (sign_padded m) \<le> Suc (length m)"
  by (simp add: sign_padded_def)

lemma sign_padded_nonempty: "m \<noteq> [] \<Longrightarrow> sign_padded m \<noteq> []"
  by (simp add: sign_padded_def)

lemma SetBytes_sign_padded: "SetBytes (sign_padded m) = SetBytes m"
  using SetBytes_zeros [of 1 m] by (simp add: sign_padded_def)

lemma unat_byte_of_nat: "k < 256 \<Longrightarrow> unat (of_nat k :: byte) = k"
  by (simp add: unat_of_nat)

lemma length_canonical_below_N:
  assumes "1 \<le> v" and "v < P256Sm2_N"
  shows "length (sign_padded (Bytes v)) \<le> 33" and "1 \<le> length (sign_padded (Bytes v))"
proof -
  have "length (Bytes v) \<le> 32" using assms by (intro length_Bytes_below_N) simp_all
  with length_sign_padded [of "Bytes v"] show "length (sign_padded (Bytes v)) \<le> 33" by simp
  have "Bytes v \<noteq> []" using assms Bytes_minimal [of v] by simp
  then have "sign_padded (Bytes v) \<noteq> []" by (rule sign_padded_nonempty)
  then show "1 \<le> length (sign_padded (Bytes v))" by (simp add: Suc_le_eq)
qed

section \<open>Signatures: the encoding\<close>

text \<open>
  Claim C2. For \<open>r\<close> and \<open>s\<close> in \<open>[1, n - 1]\<close>, \<^const>\<open>SerializeSignature\<close> returns
  the bytes \<open>0x30, LEN, 0x02, LEN(r), r, 0x02, LEN(s), s\<close>. Each integer is the minimal
  big-endian form (it reads back as the integer and starts with a byte that is not
  zero), with one zero byte in front exactly when the high bit of its first byte is set.
  \<open>LEN\<close> is the length of the two inner fields, which is the total length minus 2,
  and every length byte holds its length without wrapping.
\<close>

theorem SerializeSignature_der:
  assumes "1 \<le> r" and "r < P256Sm2_N" and "1 \<le> s" and "s < P256Sm2_N"
  shows "SerializeSignature r s =
           [0x30, of_nat (length (SerializeSignature r s) - 2),
            0x02, of_nat (length (sign_padded (Bytes r)))] @ sign_padded (Bytes r)
           @ [0x02, of_nat (length (sign_padded (Bytes s)))] @ sign_padded (Bytes s)
    \<and> unat (SerializeSignature r s ! 1) = length (SerializeSignature r s) - 2
    \<and> length (SerializeSignature r s) - 2
        = (2 + length (sign_padded (Bytes r))) + (2 + length (sign_padded (Bytes s)))
    \<and> unat (SerializeSignature r s ! 3) = length (sign_padded (Bytes r))
    \<and> unat (SerializeSignature r s ! (5 + length (sign_padded (Bytes r))))
        = length (sign_padded (Bytes s))
    \<and> SetBytes (Bytes r) = r \<and> Bytes r \<noteq> [] \<and> hd (Bytes r) \<noteq> 0
    \<and> SetBytes (Bytes s) = s \<and> Bytes s \<noteq> [] \<and> hd (Bytes s) \<noteq> 0"
proof -
  define rb where "rb = sign_padded (Bytes r)"
  define sb where "sb = sign_padded (Bytes s)"
  have cr: "canonicalizeInt r = rb" and cs: "canonicalizeInt s = sb"
    using assms by (simp_all add: canonicalizeInt_sign_padded rb_def sb_def)
  have lr: "length rb \<le> 33" and ls: "length sb \<le> 33"
    using assms length_canonical_below_N(1) by (simp_all add: rb_def sb_def)
  have lay: "SerializeSignature r s =
      [0x30, of_nat (4 + length rb + length sb), 0x02, of_nat (length rb)] @ rb
      @ [0x02, of_nat (length sb)] @ sb"
    using SerializeSignature_layout [of r s] by (simp only: cr cs)
  have len: "length (SerializeSignature r s) - 2 = 4 + length rb + length sb"
    by (simp add: lay)
  have c1: "SerializeSignature r s =
      [0x30, of_nat (length (SerializeSignature r s) - 2), 0x02, of_nat (length rb)] @ rb
      @ [0x02, of_nat (length sb)] @ sb"
    unfolding len by (rule lay)
  have "SerializeSignature r s ! 1 = (of_nat (4 + length rb + length sb) :: byte)"
    by (subst lay) simp
  moreover have "unat (of_nat (4 + length rb + length sb) :: byte) = 4 + length rb + length sb"
    using lr ls by (intro unat_byte_of_nat) simp
  ultimately have c2: "unat (SerializeSignature r s ! 1) = length (SerializeSignature r s) - 2"
    by (simp only: len)
  have c3: "length (SerializeSignature r s) - 2 = (2 + length rb) + (2 + length sb)"
    by (simp add: len)
  have c4: "unat (SerializeSignature r s ! 3) = length rb"
    using lr by (simp add: lay unat_byte_of_nat eval_nat_numeral)
  have c5: "unat (SerializeSignature r s ! (5 + length rb)) = length sb"
    using ls by (simp add: lay unat_byte_of_nat nth_append eval_nat_numeral)
  have c6: "SetBytes (Bytes r) = r" "SetBytes (Bytes s) = s"
    using assms by (simp_all add: SetBytes_Bytes)
  have c7: "Bytes r \<noteq> [] \<and> hd (Bytes r) \<noteq> 0" "Bytes s \<noteq> [] \<and> hd (Bytes s) \<noteq> 0"
    using assms by (simp_all add: Bytes_minimal)
  from c1 c2 c3 c4 c5 c6 c7 show ?thesis
    unfolding rb_def sb_def by (intro conjI) simp_all
qed

theorem SerializeSignature_der_witness:
  "(1 :: int) \<le> 128 \<and> (128 :: int) < P256Sm2_N \<and> (1 :: int) \<le> 255 \<and> (255 :: int) < P256Sm2_N
    \<and> SerializeSignature 128 255 = [0x30, 0x08, 0x02, 0x02, 0x00, 0x80, 0x02, 0x02, 0x00, 0xFF]"
proof -
  have h1: "(1 :: int) \<le> 128" and h3: "(1 :: int) \<le> 255" by simp_all
  have h2: "(128 :: int) < P256Sm2_N" and h4: "(255 :: int) < P256Sm2_N"
    by (simp_all add: P256Sm2_N_def)
  note t = SerializeSignature_der [OF h1 h2 h3 h4]
  have rb: "sign_padded (Bytes 128) = [0x00, 0x80]"
    by (simp add: Bytes_def be_bytes.simps sign_padded_def bit7_iff)
  have sb: "sign_padded (Bytes 255) = [0x00, 0xFF]"
    by (simp add: Bytes_def be_bytes.simps sign_padded_def bit7_iff)
  from t have len: "length (SerializeSignature 128 255) - 2 = 8"
    by (simp only: rb sb) simp
  from t have "SerializeSignature 128 255 =
      [0x30, of_nat (length (SerializeSignature 128 255) - 2),
       0x02, of_nat (length (sign_padded (Bytes 128)))] @ sign_padded (Bytes 128)
      @ [0x02, of_nat (length (sign_padded (Bytes 255)))] @ sign_padded (Bytes 255)"
    by (elim conjE)
  then have "SerializeSignature 128 255
      = [0x30, 0x08, 0x02, 0x02, 0x00, 0x80, 0x02, 0x02, 0x00, 0xFF]"
    by (simp only: len rb sb) simp
  with h1 h2 h3 h4 show ?thesis by (intro conjI)
qed

lemma SetBytes_canonicalizeInt: "0 \<le> v \<Longrightarrow> SetBytes (canonicalizeInt v) = v"
proof (cases "v = 0")
  case True
  then show ?thesis by (simp add: canonicalizeInt_eq SetBytes_def)
next
  case False
  assume "0 \<le> v"
  with False show ?thesis
    by (simp add: canonicalizeInt_sign_padded SetBytes_sign_padded SetBytes_Bytes)
qed

lemma parse_integer_field:
  "length m < 256 \<Longrightarrow>
     parse_integer ([0x02, of_nat (length m)] @ m @ rest) = Some (SetBytes m, rest)"
  by (simp add: unat_byte_of_nat)

lemma decodeSignature_SerializeSignature:
  assumes "0 \<le> r" and "0 \<le> s"
    and "4 + length (canonicalizeInt r) + length (canonicalizeInt s) < 256"
  shows "decodeSignature (SerializeSignature r s) = Inr (r, s)"
proof -
  define rb where "rb = canonicalizeInt r"
  define sb where "sb = canonicalizeInt s"
  define body where "body = [0x02, of_nat (length rb)] @ rb @ [0x02, of_nat (length sb)] @ sb"
  from assms(3) have small: "4 + length rb + length sb < 256"
    by (simp add: rb_def sb_def)
  have lay: "SerializeSignature r s = 0x30 # of_nat (4 + length rb + length sb) # body"
    using SerializeSignature_layout [of r s] by (simp add: rb_def sb_def body_def)
  have len: "unat (of_nat (4 + length rb + length sb) :: byte) = length body"
    using small by (simp add: unat_byte_of_nat body_def del: of_nat_add of_nat_numeral)
  have p1: "parse_integer body = Some (SetBytes rb, 0x02 # of_nat (length sb) # sb)"
    unfolding body_def using small parse_integer_field [of rb "[0x02, of_nat (length sb)] @ sb"]
    by simp
  have p2: "parse_integer (0x02 # of_nat (length sb) # sb) = Some (SetBytes sb, [])"
    using small parse_integer_field [of sb "[]"] by simp
  have "decodeSignature (SerializeSignature r s) = Inr (SetBytes rb, SetBytes sb)"
    unfolding lay by (simp add: len p1 p2 del: parse_integer.simps of_nat_add of_nat_numeral)
  with assms(1,2) show ?thesis
    by (simp add: rb_def sb_def SetBytes_canonicalizeInt)
qed

section \<open>Signatures: the round trip\<close>

text \<open>
  Claim C3. With the specification's decoder in the place of the imported parser,
  \<^const>\<open>DeserializeSignature\<close> applied to \<^const>\<open>SerializeSignature\<close> of \<open>r\<close> and \<open>s\<close>
  in \<open>[1, n - 1]\<close> succeeds and returns the pair \<open>(r, s)\<close>.
\<close>

theorem DeserializeSignature_roundtrip:
  assumes "ParseDERSignature L = (\<lambda>b. Inr (decodeSignature b))"
    and "1 \<le> r" and "r < P256Sm2_N" and "1 \<le> s" and "s < P256Sm2_N"
  shows "DeserializeSignature L (SerializeSignature r s) = Inr (Inr (r, s))"
proof -
  have "length (canonicalizeInt r) \<le> 33" "length (canonicalizeInt s) \<le> 33"
    using assms length_canonical_below_N(1) by (simp_all add: canonicalizeInt_sign_padded)
  then have "4 + length (canonicalizeInt r) + length (canonicalizeInt s) < 256" by simp
  with assms have "decodeSignature (SerializeSignature r s) = Inr (r, s)"
    by (intro decodeSignature_SerializeSignature) simp_all
  with assms(1) show ?thesis by (simp add: DeserializeSignature_def)
qed

theorem DeserializeSignature_roundtrip_witness:
  "ParseDERSignature sample_extern = (\<lambda>b. Inr (decodeSignature b))
    \<and> (1 :: int) \<le> 65535 \<and> (65535 :: int) < P256Sm2_N
    \<and> (1 :: int) \<le> 1 \<and> (1 :: int) < P256Sm2_N
    \<and> DeserializeSignature sample_extern (SerializeSignature 65535 1) = Inr (Inr (65535, 1))"
proof -
  have h0: "ParseDERSignature sample_extern = (\<lambda>b. Inr (decodeSignature b))"
    by (simp add: sample_extern_def)
  have h1: "(1 :: int) \<le> 65535" and h3: "(1 :: int) \<le> 1" by simp_all
  have h2: "(65535 :: int) < P256Sm2_N" and h4: "(1 :: int) < P256Sm2_N"
    by (simp_all add: P256Sm2_N_def)
  from h0 h1 h2 h3 h4 DeserializeSignature_roundtrip [OF h0 h1 h2 h3 h4]
  show ?thesis by (intro conjI)
qed

section \<open>Key generation\<close>

lemma foldl_SetBytes_acc:
  "foldl (\<lambda>acc b. acc * 256 + uint b) a xs
     = a * 256 ^ length xs + foldl (\<lambda>acc (b :: byte). acc * 256 + uint b) 0 xs"
proof (induction xs arbitrary: a)
  case Nil
  then show ?case by simp
next
  case (Cons x xs)
  define f where "f = (\<lambda>acc (b :: byte). acc * 256 + uint b)"
  have IH: "foldl f c xs = c * 256 ^ length xs + foldl f 0 xs" for c
    unfolding f_def by (rule Cons.IH)
  have "foldl f a (x # xs) = foldl f (a * 256 + uint x) xs" by (simp add: f_def)
  also have "\<dots> = (a * 256 + uint x) * 256 ^ length xs + foldl f 0 xs" by (rule IH)
  finally have 1: "foldl f a (x # xs) = (a * 256 + uint x) * 256 ^ length xs + foldl f 0 xs" .
  have "foldl f 0 (x # xs) = foldl f (uint x) xs" by (simp add: f_def)
  also have "\<dots> = uint x * 256 ^ length xs + foldl f 0 xs" by (rule IH)
  finally have 2: "foldl f 0 (x # xs) = uint x * 256 ^ length xs + foldl f 0 xs" .
  have "foldl f a (x # xs) = a * 256 ^ length (x # xs) + foldl f 0 (x # xs)"
    unfolding 1 2 by (simp add: algebra_simps)
  then show ?case unfolding f_def .
qed

lemma SetBytes_Cons: "SetBytes (x # xs) = uint x * 256 ^ length xs + SetBytes xs"
  using foldl_SetBytes_acc [of "uint x" xs] by (simp add: SetBytes_def)

lemma SetBytes_range: "0 \<le> SetBytes xs \<and> SetBytes xs < 256 ^ length xs"
proof (induction xs rule: rev_induct)
  case Nil
  then show ?case by (simp add: SetBytes_def)
next
  case (snoc x xs)
  have "uint x < 256" using uint_bounded [of x] by simp
  moreover have "0 \<le> uint x" by simp
  ultimately show ?case using snoc by (simp add: SetBytes_snoc)
qed

lemma bytes_Compare_numeric:
  "length xs = length ys \<Longrightarrow> (bytes_Compare xs ys < 0) = (SetBytes xs < SetBytes ys)"
proof (induction xs ys rule: list_induct2)
  case Nil
  then show ?case by simp
next
  case (Cons x xs y ys)
  define B :: int where "B = 256 ^ length xs"
  have B: "0 < B" by (simp add: B_def)
  have sx: "0 \<le> SetBytes xs" "SetBytes xs < B"
    using SetBytes_range [of xs] by (simp_all add: B_def)
  have sy: "0 \<le> SetBytes ys" "SetBytes ys < B"
    using SetBytes_range [of ys] Cons.hyps by (simp_all add: B_def)
  have ex: "SetBytes (x # xs) = uint x * B + SetBytes xs"
    by (simp add: SetBytes_Cons B_def)
  have ey: "SetBytes (y # ys) = uint y * B + SetBytes ys"
    using Cons.hyps by (simp add: SetBytes_Cons B_def)
  show ?case
  proof (cases "x < y")
    case True
    then have "uint x + 1 \<le> uint y" by (simp add: word_less_def)
    then have "(uint x + 1) * B \<le> uint y * B" using B by (intro mult_right_mono) simp_all
    then have "uint x * B + B \<le> uint y * B" by (simp add: algebra_simps)
    with sx sy have "SetBytes (x # xs) < SetBytes (y # ys)" unfolding ex ey by linarith
    with True show ?thesis by simp
  next
    case False
    show ?thesis
    proof (cases "y < x")
      case True
      then have "uint y + 1 \<le> uint x" by (simp add: word_less_def)
      then have "(uint y + 1) * B \<le> uint x * B" using B by (intro mult_right_mono) simp_all
      then have "uint y * B + B \<le> uint x * B" by (simp add: algebra_simps)
      with sx sy have "\<not> SetBytes (x # xs) < SetBytes (y # ys)" unfolding ex ey by linarith
      with True \<open>\<not> x < y\<close> show ?thesis by simp
    next
      case False
      with \<open>\<not> x < y\<close> have "x = y" by simp
      with Cons.IH show ?thesis unfolding ex ey by simp
    qed
  qed
qed

lemma Bytes_P256Sm2_N:
  "Bytes P256Sm2_N =
     [0xFF, 0xFF, 0xFF, 0xFE, 0xFF, 0xFF, 0xFF, 0xFF, 0xFF, 0xFF, 0xFF, 0xFF,
      0xFF, 0xFF, 0xFF, 0xFF, 0x72, 0x03, 0xDF, 0x6B, 0x21, 0xC6, 0x05, 0x2B,
      0x53, 0xBB, 0xF4, 0x09, 0x39, 0xD5, 0x41, 0x23]"
  by (simp add: Bytes_def P256Sm2_N_def be_bytes.simps)

lemma length_Bytes_P256Sm2_N: "length (Bytes P256Sm2_N) = 32"
  by (simp add: Bytes_P256Sm2_N)

lemma SetBytes_Bytes_P256Sm2_N: "SetBytes (Bytes P256Sm2_N) = P256Sm2_N"
  by (rule SetBytes_Bytes) (simp add: P256Sm2_N_def)

lemma copy_into_whole:
  "length src = length b \<Longrightarrow> fst (copy_into b 0 src) = src"
  by (simp add: copy_into_def)

lemma getRandBytes_RandBytes:
  "length bs = k \<Longrightarrow> getRandBytes k (RandBytes bs) = Inr bs"
  by (simp add: getRandBytes_def rand_Read_def copy_into_whole)

lemma getRandBytes_RandErr:
  "getRandBytes k (RandErr e) = Inl (Panic (''Panic on a Crisis'' @ e))"
  by (simp add: getRandBytes_def rand_Read_def)

lemma getRandBytes_misfit:
  "length bs \<noteq> k \<Longrightarrow>
     getRandBytes k (RandBytes bs) = Inl (Panic (''Panic on a Crisis'' @ ''unexpected EOF''))"
  by (simp add: getRandBytes_def rand_Read_def)

lemma length_getRandBytes: "getRandBytes k d = Inr key \<Longrightarrow> length key = k"
proof (cases d)
  case (RandErr e)
  assume "getRandBytes k d = Inr key"
  with RandErr show ?thesis by (simp add: getRandBytes_def rand_Read_def)
next
  case (RandBytes bs)
  assume g: "getRandBytes k d = Inr key"
  show ?thesis
  proof (cases "length bs = k")
    case True
    with g RandBytes show ?thesis by (simp add: getRandBytes_RandBytes)
  next
    case False
    with g RandBytes show ?thesis by (simp add: getRandBytes_misfit)
  qed
qed

lemma GenerateKey_loop_below_N:
  "GenerateKey_loop pkb ds = Some (Inr key) \<Longrightarrow> length pkb = 32 \<Longrightarrow>
     length key = 32 \<and> SetBytes key < P256Sm2_N"
proof (induction ds)
  case Nil
  then show ?case by simp
next
  case (Cons d ds)
  show ?case
  proof (cases "getRandBytes 32 d")
    case (Inl f)
    with Cons.prems show ?thesis by simp
  next
    case (Inr k)
    then have lk: "length k = 32" by (rule length_getRandBytes)
    show ?thesis
    proof (cases "bytes_Compare k (Bytes P256Sm2_N) \<ge> 0")
      case True
      with Inr Cons show ?thesis by simp
    next
      case False
      with Inr Cons.prems lk have key: "key = k" by (simp add: copy_into_whole)
      from False have "bytes_Compare k (Bytes P256Sm2_N) < 0" by simp
      with lk have "SetBytes k < SetBytes (Bytes P256Sm2_N)"
        by (simp add: bytes_Compare_numeric length_Bytes_P256Sm2_N)
      with key lk show ?thesis by (simp add: SetBytes_Bytes_P256Sm2_N)
    qed
  qed
qed

lemma SerializePrivateKey_value:
  "0 \<le> D p \<Longrightarrow> SetBytes (SerializePrivateKey p) = D p"
  by (simp add: SerializePrivateKey_def paddedAppend_eq SetBytes_zeros SetBytes_Bytes)

lemma length_SerializePrivateKey:
  "0 \<le> D p \<Longrightarrow> D p < P256Sm2_N \<Longrightarrow> length (SerializePrivateKey p) = 32"
  using length_Bytes_below_N [of "D p"]
  by (simp add: SerializePrivateKey_def paddedAppend_eq SM2PrivateKeyLength_def)

lemma GenerateKey_private_key_range:
  assumes "GenerateKey L ds = Some (Inr (privBytes, pubBytes))"
  shows "length privBytes = 32 \<and> 0 \<le> SetBytes privBytes \<and> SetBytes privBytes < P256Sm2_N"
proof -
  from assms obtain key x y where
    loop: "GenerateKey_loop (replicate 32 0) ds = Some (Inr key)"
    and priv: "privBytes = SerializePrivateKey \<lparr>PublicKey = \<lparr>X = x, Y = y\<rparr>, D = SetBytes key\<rparr>"
    by (auto simp: GenerateKey_def SM2PrivateKeyLength_def PrivKeyFromBytes_def Let_def
        split: option.splits sum.splits prod.splits)
  from loop have "SetBytes key < P256Sm2_N" using GenerateKey_loop_below_N by simp
  moreover have "0 \<le> SetBytes key" using SetBytes_range by simp
  ultimately show ?thesis
    unfolding priv by (simp add: SerializePrivateKey_value length_SerializePrivateKey)
qed

lemma replicate_32: "replicate 32 x = x # replicate 31 x"
  by (simp add: eval_nat_numeral)

lemma GenerateKey_loop_zero:
  "GenerateKey_loop (replicate 32 0) (RandBytes (replicate 32 0) # ds)
     = Some (Inr (replicate 32 0))"
proof -
  have g: "getRandBytes 32 (RandBytes (replicate 32 0)) = Inr (replicate 32 0)"
    by (simp add: getRandBytes_RandBytes)
  have "bytes_Compare (replicate 32 0) (Bytes P256Sm2_N) = - 1"
    unfolding replicate_32 Bytes_P256Sm2_N by simp
  with g show ?thesis by (simp add: copy_into_whole)
qed

lemma SerializePrivateKey_zero: "D p = 0 \<Longrightarrow> SerializePrivateKey p = replicate 32 0"
  by (simp add: SerializePrivateKey_def paddedAppend_eq SM2PrivateKeyLength_def Bytes_def
      be_bytes.simps [of 0])

lemma SetBytes_replicate_0: "SetBytes (replicate k 0) = 0"
  using SetBytes_zeros [of k "[]"] by (simp add: SetBytes_def)

text \<open>
  Claim C5 says that the private key scalar returned by \<^const>\<open>GenerateKey\<close> lies in
  \<open>[1, n - 1]\<close> and is never zero. The loop rejects a draw only when it compares at or
  above the order, so a draw of 32 zero bytes is accepted: whenever the imported curve
  functions return at all, the private key returned is 32 zero bytes, the scalar \<open>0\<close>.
  (The upper bound does hold, see \<open>GenerateKey_private_key_range\<close>.)
\<close>

theorem GenerateKey_zero_private_key:
  "GenerateKey L (RandBytes (replicate 32 0) # ds) =
     (case ScalarBaseMult L (replicate 32 0) of
        Inl f \<Rightarrow> Some (Inl f)
      | Inr (x, y) \<Rightarrow>
          (case Compress L \<lparr>X = x, Y = y\<rparr> of
             Inl f \<Rightarrow> Some (Inl f)
           | Inr pubBytes \<Rightarrow> Some (Inr (replicate 32 0, pubBytes))))
   \<and> SetBytes (replicate 32 0) = 0
   \<and> GenerateKey sample_extern [RandBytes (replicate 32 0)]
       = Some (Inr (replicate 32 0, 0x02 # replicate 32 0))"
proof -
  have gen: "GenerateKey M (RandBytes (replicate 32 0) # es) =
     (case ScalarBaseMult M (replicate 32 0) of
        Inl f \<Rightarrow> Some (Inl f)
      | Inr (x, y) \<Rightarrow>
          (case Compress M \<lparr>X = x, Y = y\<rparr> of
             Inl f \<Rightarrow> Some (Inl f)
           | Inr pubBytes \<Rightarrow> Some (Inr (replicate 32 0, pubBytes))))" for M es
    unfolding GenerateKey_def SM2PrivateKeyLength_def Let_def GenerateKey_loop_zero
    by (simp add: PrivKeyFromBytes_def SerializePublicKey_def SerializePrivateKey_zero
        SetBytes_replicate_0 split: sum.splits prod.splits)
  have "GenerateKey sample_extern [RandBytes (replicate 32 0)]
       = Some (Inr (replicate 32 0, 0x02 # replicate 32 0))"
    unfolding gen
    by (simp add: sample_extern_def SetBytes_replicate_0 paddedAppend_eq Bytes_def
        be_bytes.simps [of 0])
  with gen [of L ds] show ?thesis by (simp add: SetBytes_replicate_0)
qed

lemma GenerateKey_loop_rejected:
  "list_all rejected pre \<Longrightarrow> GenerateKey_loop pkb (pre @ ds) = GenerateKey_loop pkb ds"
  by (induction pre) (auto simp: rejected_def split: sum.splits)

text \<open>
  Key generation on a failing random source: \<^const>\<open>GenerateKey\<close> panics on the first
  failed read, after any number of draws it rejected for being at or above the order,
  and asks for no further draw. (Signing and encryption draw inside the imported
  package; what they do on a failed read is decided there.)
\<close>

lemma GenerateKey_failed_read:
  "list_all rejected pre \<Longrightarrow>
     GenerateKey L (pre @ RandErr e # rest) = Some (Inl (Panic (''Panic on a Crisis'' @ e)))"
  by (simp add: GenerateKey_def GenerateKey_loop_rejected getRandBytes_RandErr)

section \<open>Identifiers\<close>

text \<open>
  Claim C6. \<^const>\<open>SM2Sign\<close> and \<^const>\<open>SM2Verify\<close> with a nil identifier do what they
  do with the identifier \<^const>\<open>DefaultUID\<close>, for every message, key, signature and
  behaviour of the imported functions, and \<^const>\<open>DefaultUID\<close> is the 16 ASCII bytes of
  \<open>1234567812345678\<close>.
\<close>

theorem nil_uid_is_DefaultUID:
  "SM2Sign L msg key None rnd = SM2Sign L msg key (Some DefaultUID) rnd
   \<and> SM2Verify L pk msg None sig = SM2Verify L pk msg (Some DefaultUID) sig
   \<and> DefaultUID = map (\<lambda>c. of_nat (of_char c)) ''1234567812345678''
   \<and> length DefaultUID = 16"
  by (simp add: SM2Sign_def SM2Verify_def DefaultUID_def)

lemma SetBytes_G_x:
  "SetBytes [0x32, 0xC4, 0xAE, 0x2C, 0x1F, 0x19, 0x81, 0x19, 0x5F, 0x99, 0x04, 0x46,
             0x6A, 0x39, 0xC9, 0x94, 0x8F, 0xE3, 0x0B, 0xBF, 0xF2, 0x66, 0x0B, 0xE1,
             0x71, 0x5A, 0x45, 0x89, 0x33, 0x4C, 0x74, 0xC7]
     = 0x32C4AE2C1F1981195F9904466A39C9948FE30BBFF2660BE1715A4589334C74C7"
  by (simp add: SetBytes_def)

lemma sample_parsePubKey:
  "parsePubKey sample_extern
     [0x02, 0x32, 0xC4, 0xAE, 0x2C, 0x1F, 0x19, 0x81, 0x19, 0x5F, 0x99, 0x04, 0x46,
      0x6A, 0x39, 0xC9, 0x94, 0x8F, 0xE3, 0x0B, 0xBF, 0xF2, 0x66, 0x0B, 0xE1,
      0x71, 0x5A, 0x45, 0x89, 0x33, 0x4C, 0x74, 0xC7]
     = Inr (Some \<lparr>X = 0x32C4AE2C1F1981195F9904466A39C9948FE30BBFF2660BE1715A4589334C74C7,
                    Y = 0\<rparr>)"
  by (simp add: parsePubKey_def sample_extern_def SetBytes_G_x)





section \<open>Malformed signatures\<close>

text \<open>
  Claim C7, as amended. When the parser rejects the signature bytes,
  \<^const>\<open>DeserializeSignature\<close> returns the parser's error, but \<^const>\<open>SM2Verify\<close>, once it
  has decoded the public key, returns the boolean false: the very result it returns for
  a well-formed signature that the verifier rejects. Its caller cannot tell the two
  apart.
\<close>

theorem malformed_signature_yields_false:
  assumes "ParseDERSignature L sig = Inr (Inl err)"
    and "parsePubKey L pk = Inr pub"
    and "ParseDERSignature L sig' = Inr (Inr (r, s))"
    and "Sm2Verify L pub msg (case uid of None \<Rightarrow> DefaultUID | Some u \<Rightarrow> u) r s = Inr False"
  shows "DeserializeSignature L sig = Inr (Inl err)
    \<and> SM2Verify L pk msg uid sig = Inr False
    \<and> SM2Verify L pk msg uid sig' = Inr False"
  using assms by (simp add: DeserializeSignature_def SM2Verify_def)

theorem malformed_signature_yields_false_witness:
  "ParseDERSignature sample_extern [0x31, 0x06, 0x02, 0x01, 0x02, 0x02, 0x01, 0x03]
      = Inr (Inl MalformedSignature)
   \<and> parsePubKey sample_extern
        [0x02, 0x32, 0xC4, 0xAE, 0x2C, 0x1F, 0x19, 0x81, 0x19, 0x5F, 0x99, 0x04, 0x46,
         0x6A, 0x39, 0xC9, 0x94, 0x8F, 0xE3, 0x0B, 0xBF, 0xF2, 0x66, 0x0B, 0xE1,
         0x71, 0x5A, 0x45, 0x89, 0x33, 0x4C, 0x74, 0xC7]
      = Inr (Some \<lparr>X = 0x32C4AE2C1F1981195F9904466A39C9948FE30BBFF2660BE1715A4589334C74C7,
                     Y = 0\<rparr>)
   \<and> ParseDERSignature sample_extern [0x30, 0x06, 0x02, 0x01, 0x02, 0x02, 0x01, 0x03]
      = Inr (Inr (2, 3))
   \<and> Sm2Verify sample_extern
        (Some \<lparr>X = 0x32C4AE2C1F1981195F9904466A39C9948FE30BBFF2660BE1715A4589334C74C7,
               Y = 0\<rparr>) [0x68, 0x69]
        (case Some [0x41] of None \<Rightarrow> DefaultUID | Some u \<Rightarrow> u) 2 3 = Inr False
   \<and> DeserializeSignature sample_extern [0x31, 0x06, 0x02, 0x01, 0x02, 0x02, 0x01, 0x03]
      = Inr (Inl MalformedSignature)
   \<and> SM2Verify sample_extern
        [0x02, 0x32, 0xC4, 0xAE, 0x2C, 0x1F, 0x19, 0x81, 0x19, 0x5F, 0x99, 0x04, 0x46,
         0x6A, 0x39, 0xC9, 0x94, 0x8F, 0xE3, 0x0B, 0xBF, 0xF2, 0x66, 0x0B, 0xE1,
         0x71, 0x5A, 0x45, 0x89, 0x33, 0x4C, 0x74, 0xC7] [0x68, 0x69] (Some [0x41])
        [0x31, 0x06, 0x02, 0x01, 0x02, 0x02, 0x01, 0x03] = Inr False
   \<and> SM2Verify sample_extern
        [0x02, 0x32, 0xC4, 0xAE, 0x2C, 0x1F, 0x19, 0x81, 0x19, 0x5F, 0x99, 0x04, 0x46,
         0x6A, 0x39, 0xC9, 0x94, 0x8F, 0xE3, 0x0B, 0xBF, 0xF2, 0x66, 0x0B, 0xE1,
         0x71, 0x5A, 0x45, 0x89, 0x33, 0x4C, 0x74, 0xC7] [0x68, 0x69] (Some [0x41])
        [0x30, 0x06, 0x02, 0x01, 0x02, 0x02, 0x01, 0x03] = Inr False"
proof -
  let ?pk = "[0x02, 0x32, 0xC4, 0xAE, 0x2C, 0x1F, 0x19, 0x81, 0x19, 0x5F, 0x99, 0x04, 0x46,
         0x6A, 0x39, 0xC9, 0x94, 0x8F, 0xE3, 0x0B, 0xBF, 0xF2, 0x66, 0x0B, 0xE1,
         0x71, 0x5A, 0x45, 0x89, 0x33, 0x4C, 0x74, 0xC7 :: byte]"
  let ?P = "Some \<lparr>X = 0x32C4AE2C1F1981195F9904466A39C9948FE30BBFF2660BE1715A4589334C74C7,
               Y = 0\<rparr>"
  have h1: "ParseDERSignature sample_extern
      [0x31, 0x06, 0x02, 0x01, 0x02, 0x02, 0x01, 0x03] = Inr (Inl MalformedSignature)"
    by (simp add: sample_extern_def)
  have h2: "parsePubKey sample_extern ?pk = Inr ?P"
    by (rule sample_parsePubKey)
  have h3: "ParseDERSignature sample_extern
      [0x30, 0x06, 0x02, 0x01, 0x02, 0x02, 0x01, 0x03] = Inr (Inr (2, 3))"
    by (simp add: sample_extern_def SetBytes_def)
  have h4: "Sm2Verify sample_extern ?P [0x68, 0x69]
        (case Some [0x41] of None \<Rightarrow> DefaultUID | Some u \<Rightarrow> u) 2 3 = Inr False"
    by (simp add: sample_extern_def sample_digest_def sample_uid_def SetBytes_def P256Sm2_N_def)
  note t = malformed_signature_yields_false [OF h1 h2 h3 h4]
  from t have c1: "DeserializeSignature sample_extern
      [0x31, 0x06, 0x02, 0x01, 0x02, 0x02, 0x01, 0x03] = Inr (Inl MalformedSignature)"
    by (elim conjE)
  from t have c2: "SM2Verify sample_extern ?pk [0x68, 0x69] (Some [0x41])
        [0x31, 0x06, 0x02, 0x01, 0x02, 0x02, 0x01, 0x03] = Inr False"
    by (elim conjE)
  from t have c3: "SM2Verify sample_extern ?pk [0x68, 0x69] (Some [0x41])
        [0x30, 0x06, 0x02, 0x01, 0x02, 0x02, 0x01, 0x03] = Inr False"
    by (elim conjE)
  from h1 h2 h3 h4 c1 c2 c3 show ?thesis by (intro conjI)
qed

text \<open>
  The claim as first stated, that a malformed signature is reported to the caller of
  verification as an error distinct from "does not verify", fails. Under the compressed
  base point as public key, a signature with the sequence tag \<open>0x31\<close> and the
  well-formed signature \<open>(1, 1)\<close>, which does not verify, give the same result.
\<close>

theorem malformed_signature_counterexample:
  "DeserializeSignature sample_extern [0x31, 0x06, 0x02, 0x01, 0x01, 0x02, 0x01, 0x01]
     = Inr (Inl MalformedSignature)
   \<and> DeserializeSignature sample_extern [0x30, 0x06, 0x02, 0x01, 0x01, 0x02, 0x01, 0x01]
     = Inr (Inr (1, 1))
   \<and> SM2Verify sample_extern
        [0x02, 0x32, 0xC4, 0xAE, 0x2C, 0x1F, 0x19, 0x81, 0x19, 0x5F, 0x99, 0x04, 0x46,
         0x6A, 0x39, 0xC9, 0x94, 0x8F, 0xE3, 0x0B, 0xBF, 0xF2, 0x66, 0x0B, 0xE1,
         0x71, 0x5A, 0x45, 0x89, 0x33, 0x4C, 0x74, 0xC7] [0x68, 0x69] None
        [0x31, 0x06, 0x02, 0x01, 0x01, 0x02, 0x01, 0x01] = Inr False
   \<and> SM2Verify sample_extern
        [0x02, 0x32, 0xC4, 0xAE, 0x2C, 0x1F, 0x19, 0x81, 0x19, 0x5F, 0x99, 0x04, 0x46,
         0x6A, 0x39, 0xC9, 0x94, 0x8F, 0xE3, 0x0B, 0xBF, 0xF2, 0x66, 0x0B, 0xE1,
         0x71, 0x5A, 0x45, 0x89, 0x33, 0x4C, 0x74, 0xC7] [0x68, 0x69] None
        [0x30, 0x06, 0x02, 0x01, 0x01, 0x02, 0x01, 0x01] = Inr False"
proof -
  let ?P = "Some \<lparr>X = 0x32C4AE2C1F1981195F9904466A39C9948FE30BBFF2660BE1715A4589334C74C7,
               Y = 0\<rparr>"
  have p: "ParseDERSignature sample_extern = (\<lambda>b. Inr (decodeSignature b))"
    by (simp add: sample_extern_def)
  have bad: "DeserializeSignature sample_extern [0x31, 0x06, 0x02, 0x01, 0x01, 0x02, 0x01, 0x01]
     = Inr (Inl MalformedSignature)"
    by (simp add: DeserializeSignature_def p)
  have good: "DeserializeSignature sample_extern [0x30, 0x06, 0x02, 0x01, 0x01, 0x02, 0x01, 0x01]
     = Inr (Inr (1, 1))"
    by (simp add: DeserializeSignature_def p SetBytes_def)
  have v: "Sm2Verify sample_extern ?P [0x68, 0x69] DefaultUID 1 1 = Inr False"
    by (simp add: sample_extern_def sample_digest_def sample_uid_def DefaultUID_def
        SetBytes_def P256Sm2_N_def)
  have c3: "SM2Verify sample_extern
        [0x02, 0x32, 0xC4, 0xAE, 0x2C, 0x1F, 0x19, 0x81, 0x19, 0x5F, 0x99, 0x04, 0x46,
         0x6A, 0x39, 0xC9, 0x94, 0x8F, 0xE3, 0x0B, 0xBF, 0xF2, 0x66, 0x0B, 0xE1,
         0x71, 0x5A, 0x45, 0x89, 0x33, 0x4C, 0x74, 0xC7] [0x68, 0x69] None
        [0x31, 0x06, 0x02, 0x01, 0x01, 0x02, 0x01, 0x01] = Inr False"
    unfolding SM2Verify_def Let_def sample_parsePubKey bad by simp
  have c4: "SM2Verify sample_extern
        [0x02, 0x32, 0xC4, 0xAE, 0x2C, 0x1F, 0x19, 0x81, 0x19, 0x5F, 0x99, 0x04, 0x46,
         0x6A, 0x39, 0xC9, 0x94, 0x8F, 0xE3, 0x0B, 0xBF, 0xF2, 0x66, 0x0B, 0xE1,
         0x71, 0x5A, 0x45, 0x89, 0x33, 0x4C, 0x74, 0xC7] [0x68, 0x69] None
        [0x30, 0x06, 0x02, 0x01, 0x01, 0x02, 0x01, 0x01] = Inr False"
    unfolding SM2Verify_def Let_def sample_parsePubKey good by (simp add: v)
  from bad good c3 c4 show ?thesis by (intro conjI)
qed

section \<open>Generated key pairs\<close>

lemma be_bytes_step:
  assumes "0 \<le> v"
  shows "0 < v * 256 + uint (x :: byte) \<Longrightarrow>
    be_bytes (nat (v * 256 + uint x)) = be_bytes (nat v) @ [x]"
proof -
  assume pos: "0 < v * 256 + uint x"
  have x: "0 \<le> uint x" "uint x < 256" using uint_bounded [of x] by simp_all
  have d: "(v * 256 + uint x) div 256 = v" using x by simp
  have m: "(v * 256 + uint x) mod 256 = uint x" using x by simp
  have n256: "nat 256 = 256" by simp
  have "nat (v * 256 + uint x) div nat 256 = nat ((v * 256 + uint x) div 256)"
    using assms x by (intro nat_div_distrib [symmetric]) simp
  also have "\<dots> = nat v" by (simp only: d)
  finally have nd: "nat (v * 256 + uint x) div 256 = nat v" unfolding n256 .
  have "nat (v * 256 + uint x) mod nat 256 = nat ((v * 256 + uint x) mod 256)"
    using assms x by (intro nat_mod_distrib [symmetric]) simp_all
  also have "\<dots> = nat (uint x)" by (simp only: m)
  also have "\<dots> = unat x" by simp
  finally have nm: "nat (v * 256 + uint x) mod 256 = unat x" unfolding n256 .
  from pos nd nm show ?thesis
    by (subst be_bytes.simps) simp
qed

lemma Bytes_SetBytes: "Bytes (SetBytes xs) = dropWhile (\<lambda>b. b = 0) xs"
proof (induction xs rule: rev_induct)
  case Nil
  then show ?case by (simp add: Bytes_def SetBytes_def be_bytes.simps [of 0])
next
  case (snoc x xs)
  have nn: "0 \<le> SetBytes xs" using SetBytes_range [of xs] by simp
  have nx: "0 \<le> uint x" by simp
  show ?case
  proof (cases "SetBytes xs * 256 + uint x = 0")
    case True
    with nn nx have "SetBytes xs = 0" and "uint x = 0" by linarith+
    then have "x = 0" by (simp add: uint_0_iff)
    moreover from snoc \<open>SetBytes xs = 0\<close> have "dropWhile (\<lambda>b. b = 0) xs = []"
      by (simp add: Bytes_def be_bytes.simps [of 0])
    ultimately show ?thesis using True
      by (simp add: SetBytes_snoc Bytes_def be_bytes.simps [of 0] dropWhile_append)
  next
    case False
    with nn nx have pos: "0 < SetBytes xs * 256 + uint x" by linarith
    have "be_bytes (nat (SetBytes xs * 256 + uint x)) = be_bytes (nat (SetBytes xs)) @ [x]"
      using nn pos by (rule be_bytes_step)
    with snoc nn have e: "Bytes (SetBytes (xs @ [x])) = dropWhile (\<lambda>b. b = 0) xs @ [x]"
      by (simp add: SetBytes_snoc Bytes_def)
    show ?thesis
    proof (cases "\<forall>b\<in>set xs. b = 0")
      case True
      then have "xs = replicate (length xs) 0" by (simp add: replicate_length_same)
      then have "SetBytes xs = 0" using SetBytes_replicate_0 [of "length xs"] by simp
      with pos have "x \<noteq> 0" by auto
      with True e show ?thesis by (simp add: dropWhile_append)
    next
      case False
      with e show ?thesis by (simp add: dropWhile_append)
    qed
  qed
qed

lemma takeWhile_zero: "takeWhile (\<lambda>b. b = 0) xs = replicate (length (takeWhile (\<lambda>b. b = (0 :: byte)) xs)) 0"
  by (rule replicate_length_same [symmetric]) (auto dest: set_takeWhileD)

lemma paddedAppend_SetBytes:
  "length key = sz \<Longrightarrow> paddedAppend sz [] (Bytes (SetBytes key)) = key"
proof -
  assume l: "length key = sz"
  let ?z = "\<lambda>b :: byte. b = 0"
  have "length (takeWhile ?z key) + length (dropWhile ?z key) = sz"
    using l by (simp flip: length_append)
  then have "sz - length (dropWhile ?z key) = length (takeWhile ?z key)" by simp
  then have "paddedAppend sz [] (Bytes (SetBytes key))
      = replicate (length (takeWhile ?z key)) 0 @ dropWhile ?z key"
    by (simp add: paddedAppend_eq Bytes_SetBytes)
  also have "\<dots> = takeWhile ?z key @ dropWhile ?z key"
    using takeWhile_zero [of key] by simp
  finally show ?thesis by simp
qed

text \<open>
  The private key bytes that \<^const>\<open>GenerateKey\<close> returns are the accepted draw itself,
  so the public key beside them is the one \<^const>\<open>PubKeyFromPrivate\<close> derives from them.
\<close>

lemma GenerateKey_pair:
  assumes "GenerateKey L ds = Some (Inr (privBytes, pubBytes))"
  shows "PubKeyFromPrivate L privBytes = Inr pubBytes"
proof -
  from assms obtain key x y where
    loop: "GenerateKey_loop (replicate 32 0) ds = Some (Inr key)"
    and sbm: "ScalarBaseMult L key = Inr (x, y)"
    and priv: "privBytes = SerializePrivateKey \<lparr>PublicKey = \<lparr>X = x, Y = y\<rparr>, D = SetBytes key\<rparr>"
    and pub: "Compress L \<lparr>X = x, Y = y\<rparr> = Inr pubBytes"
    by (auto simp: GenerateKey_def SM2PrivateKeyLength_def PrivKeyFromBytes_def Let_def
        SerializePublicKey_def split: option.splits sum.splits prod.splits)
  from loop have "length key = 32" using GenerateKey_loop_below_N by simp
  then have "privBytes = key"
    unfolding priv by (simp add: SerializePrivateKey_def SM2PrivateKeyLength_def paddedAppend_SetBytes)
  with sbm pub show ?thesis
    by (simp add: PubKeyFromPrivate_def PrivKeyFromBytes_def SerializePublicKey_def)
qed

text \<open>
  Signing then verifying, relative to the imported package: where its signer returns a
  signature for the generated key, its parser reads the encoding back, and its verifier
  accepts that signature for the decompressed public key, \<^const>\<open>SM2Verify\<close> accepts
  what \<^const>\<open>SM2Sign\<close> produced. Whether the package meets these conditions is
  decided by its own code.
\<close>

lemma sign_then_verify_relative:
  assumes "GenerateKey L ds = Some (Inr (privBytes, pubBytes))"
    and "PrivKeyFromBytes L privBytes = Inr (priv, pub)"
    and "Sm2Sign L priv msg (case uid of None \<Rightarrow> DefaultUID | Some u \<Rightarrow> u) rnd = Inr (Inr (r, s))"
    and "ParseDERSignature L (SerializeSignature r s) = Inr (Inr (r, s))"
    and "Decompress L pubBytes = Inr P"
    and "Sm2Verify L P msg (case uid of None \<Rightarrow> DefaultUID | Some u \<Rightarrow> u) r s = Inr True"
  shows "Compress L pub = Inr pubBytes
    \<and> SM2Sign L msg privBytes uid rnd = Inr (Inr (SerializeSignature r s))
    \<and> SM2Verify L pubBytes msg uid (SerializeSignature r s) = Inr True"
proof -
  have "PubKeyFromPrivate L privBytes = Inr pubBytes" using assms(1) by (rule GenerateKey_pair)
  with assms(2) have c1: "Compress L pub = Inr pubBytes"
    by (simp add: PubKeyFromPrivate_def SerializePublicKey_def)
  have c2: "SM2Sign L msg privBytes uid rnd = Inr (Inr (SerializeSignature r s))"
    using assms(2,3) by (simp add: SM2Sign_def)
  have c3: "SM2Verify L pubBytes msg uid (SerializeSignature r s) = Inr True"
    using assms(4,5,6) by (simp add: SM2Verify_def parsePubKey_def DeserializeSignature_def)
  from c1 c2 c3 show ?thesis by (intro conjI)
qed

end
